theory Spec2Isabelle
  imports Main "HOL-Library.Log_Nat"
begin

section \<open>The stats cache of the items API\<close>

text \<open>
  A shallow embedding of \<^verbatim>\<open>backend/src/utils/stats.js\<close> (functions \<^verbatim>\<open>mean\<close>,
  \<^verbatim>\<open>calculateStats\<close>, \<^verbatim>\<open>initStatsCache\<close>, \<^verbatim>\<open>getStats\<close>) and of the route
  \<^verbatim>\<open>GET /api/stats\<close> that reads the cache.

  The code leans on services of its JavaScript runtime. They enter the model as follows.
  \<^item> Numbers are IEEE 754 binary64 values; addition and division round to nearest, ties
    to even (\<open>fadd\<close>, \<open>fdiv\<close>).
  \<^item> \<^verbatim>\<open>fs.readFile\<close> followed by \<^verbatim>\<open>JSON.parse\<close> has one of three outcomes
    (\<open>file_result\<close>): the read fails, the text is not JSON, or the text parses to a JSON
    value. The outcome is an input of every function that reads the file.
  \<^item> The two conversions between numbers and strings (\<^verbatim>\<open>Number::toString\<close> and
    \<^verbatim>\<open>StringToNumber\<close>), which \<^verbatim>\<open>+\<close> and \<^verbatim>\<open>/\<close> apply when a price is a string, an
    array or an object, are parameters (\<open>runtime\<close>): every general statement holds for
    all of them.
  \<^item> Time is a natural number of milliseconds. The event loop keeps a table of the
    armed timeouts; a timeout fires at its deadline, and an event that happens at the
    deadline or later finds it fired.
\<close>

subsection \<open>Numbers\<close>

text \<open>
  A number is NaN, an infinity, negative zero, or \<open>Fin q\<close> with \<open>q\<close> the rational value of a
  finite binary64 number (\<open>Fin 0\<close> is positive zero). \<open>round64\<close> rounds a nonzero rational
  to binary64: 53 significant bits, least exponent \<open>-1074\<close>, overflow from \<open>2 ^ 1024\<close> on.
\<close>

datatype jsnum = NaN | PosInf | NegInf | NegZero | Fin rat

definition pow2 :: "int \<Rightarrow> rat" where
  "pow2 e = (if 0 \<le> e then 2 ^ nat e else 1 / 2 ^ nat (- e))"

definition ilog2 :: "rat \<Rightarrow> int" where
  "ilog2 a = (if 1 \<le> a then bitlen \<lfloor>a\<rfloor> - 1 else - bitlen (\<lceil>1 / a\<rceil> - 1))"

definition round_half_even :: "rat \<Rightarrow> int" where
  "round_half_even r =
     (let f = \<lfloor>r\<rfloor>; d = r - of_int f
      in if d < 1 / 2 then f
         else if 1 / 2 < d then f + 1
         else if even f then f else f + 1)"

definition round64 :: "rat \<Rightarrow> jsnum" where
  "round64 q =
     (if q = 0 then Fin 0
      else let a = \<bar>q\<bar>;
               e = max (ilog2 a - 52) (- 1074);
               v = of_int (round_half_even (a / pow2 e)) * pow2 e
           in if 2 ^ 1024 \<le> v then (if 0 < q then PosInf else NegInf)
              else if v = 0 then (if 0 < q then Fin 0 else NegZero)
              else Fin (if 0 < q then v else - v))"

definition is_zero :: "jsnum \<Rightarrow> bool" where
  "is_zero x \<longleftrightarrow> x = Fin 0 \<or> x = NegZero"

definition is_inf :: "jsnum \<Rightarrow> bool" where
  "is_inf x \<longleftrightarrow> x = PosInf \<or> x = NegInf"

fun sign_bit :: "jsnum \<Rightarrow> bool" where
  "sign_bit NegInf = True"
| "sign_bit NegZero = True"
| "sign_bit (Fin q) = (q < 0)"
| "sign_bit x = False"

definition signed_zero :: "bool \<Rightarrow> jsnum" where
  "signed_zero negative = (if negative then NegZero else Fin 0)"

definition signed_inf :: "bool \<Rightarrow> jsnum" where
  "signed_inf negative = (if negative then NegInf else PosInf)"

text \<open>The operator \<^verbatim>\<open>+\<close> on two numbers.\<close>

fun fadd :: "jsnum \<Rightarrow> jsnum \<Rightarrow> jsnum" where
  "fadd NaN y = NaN"
| "fadd x NaN = NaN"
| "fadd PosInf NegInf = NaN"
| "fadd NegInf PosInf = NaN"
| "fadd PosInf y = PosInf"
| "fadd x PosInf = PosInf"
| "fadd NegInf y = NegInf"
| "fadd x NegInf = NegInf"
| "fadd NegZero y = y"
| "fadd x NegZero = x"
| "fadd (Fin a) (Fin b) = (if a + b = 0 then Fin 0 else round64 (a + b))"

text \<open>The operator \<^verbatim>\<open>/\<close> on two numbers. Division by zero does not throw.\<close>

definition fdiv :: "jsnum \<Rightarrow> jsnum \<Rightarrow> jsnum" where
  "fdiv x y =
     (if x = NaN \<or> y = NaN then NaN
      else if is_inf x then (if is_inf y then NaN else signed_inf (sign_bit x \<noteq> sign_bit y))
      else if is_inf y then signed_zero (sign_bit x \<noteq> sign_bit y)
      else if is_zero y then (if is_zero x then NaN else signed_inf (sign_bit x \<noteq> sign_bit y))
      else if is_zero x then signed_zero (sign_bit x \<noteq> sign_bit y)
      else (case (x, y) of (Fin a, Fin b) \<Rightarrow> round64 (a / b) | _ \<Rightarrow> NaN))"

text \<open>\<^verbatim>\<open>arr.length\<close> as a number: an array has fewer than \<open>2 ^ 32\<close> elements, so the
  count is a binary64 value as it stands.\<close>

definition number_of_length :: "nat \<Rightarrow> jsnum" where
  "number_of_length n = Fin (of_nat n)"

subsection \<open>Values\<close>

text \<open>What \<^verbatim>\<open>JSON.parse\<close> can return. An object is the list of its own properties; a
  lookup takes the first entry of a key.\<close>

datatype json =
    JNull
  | JBool bool
  | JNum jsnum
  | JStr string
  | JArr "json list"
  | JObj "(string \<times> json) list"

text \<open>A value read from a property: \<open>None\<close> is \<^verbatim>\<open>undefined\<close>.\<close>

type_synonym jsval = "json option"

text \<open>The primitive values that \<^verbatim>\<open>+\<close> works on after \<^verbatim>\<open>ToPrimitive\<close>.\<close>

datatype prim = PUndefined | PNull | PBool bool | PNum jsnum | PStr string

datatype error = FsError | SyntaxError | TypeError

record runtime =
  NumberToString :: "jsnum \<Rightarrow> string"
  StringToNumber :: "string \<Rightarrow> jsnum"

text \<open>
  \<^verbatim>\<open>ToString\<close> of a parsed value. An array is joined with commas, \<^verbatim>\<open>null\<close> elements
  giving the empty string. A parsed object inherits \<^verbatim>\<open>Object.prototype.toString\<close> unless
  it has an own property \<^verbatim>\<open>toString\<close>, which is never callable: then no conversion
  exists and a TypeError is thrown.
\<close>

fun ToString_json :: "runtime \<Rightarrow> json \<Rightarrow> error + string"
  and array_join :: "runtime \<Rightarrow> json list \<Rightarrow> error + string" where
  "ToString_json rt JNull = Inr ''null''"
| "ToString_json rt (JBool b) = Inr (if b then ''true'' else ''false'')"
| "ToString_json rt (JNum x) = Inr (NumberToString rt x)"
| "ToString_json rt (JStr s) = Inr s"
| "ToString_json rt (JArr xs) = array_join rt xs"
| "ToString_json rt (JObj kvs) =
     (if map_of kvs ''toString'' = None then Inr ''[object Object]'' else Inl TypeError)"
| "array_join rt [] = Inr []"
| "array_join rt (x # xs) =
     (case (if x = JNull then Inr [] else ToString_json rt x) of
        Inl e \<Rightarrow> Inl e
      | Inr s \<Rightarrow>
          (if xs = [] then Inr s
           else case array_join rt xs of
                  Inl e \<Rightarrow> Inl e
                | Inr t \<Rightarrow> Inr (s @ '','' @ t)))"

definition ToPrimitive :: "runtime \<Rightarrow> jsval \<Rightarrow> error + prim" where
  "ToPrimitive rt v =
     (case v of
        None \<Rightarrow> Inr PUndefined
      | Some JNull \<Rightarrow> Inr PNull
      | Some (JBool b) \<Rightarrow> Inr (PBool b)
      | Some (JNum x) \<Rightarrow> Inr (PNum x)
      | Some (JStr s) \<Rightarrow> Inr (PStr s)
      | Some j \<Rightarrow> (case ToString_json rt j of Inl e \<Rightarrow> Inl e | Inr s \<Rightarrow> Inr (PStr s)))"

definition ToString :: "runtime \<Rightarrow> prim \<Rightarrow> string" where
  "ToString rt p =
     (case p of
        PUndefined \<Rightarrow> ''undefined''
      | PNull \<Rightarrow> ''null''
      | PBool b \<Rightarrow> (if b then ''true'' else ''false'')
      | PNum x \<Rightarrow> NumberToString rt x
      | PStr s \<Rightarrow> s)"

definition ToNumber :: "runtime \<Rightarrow> prim \<Rightarrow> jsnum" where
  "ToNumber rt p =
     (case p of
        PUndefined \<Rightarrow> NaN
      | PNull \<Rightarrow> Fin 0
      | PBool b \<Rightarrow> (if b then Fin 1 else Fin 0)
      | PNum x \<Rightarrow> x
      | PStr s \<Rightarrow> StringToNumber rt s)"

fun is_string :: "prim \<Rightarrow> bool" where
  "is_string (PStr s) = True"
| "is_string p = False"

subsection \<open>mean\<close>

text \<open>
  \<^verbatim>\<open>(a, b) => a + b\<close>: the accumulator \<open>a\<close> is a primitive (the initial \<open>0\<close> or an
  earlier sum), \<open>b\<close> an element of the array. If either side is a string after
  \<^verbatim>\<open>ToPrimitive\<close> the two are concatenated, otherwise they are added as numbers.
\<close>

definition js_add :: "runtime \<Rightarrow> prim \<Rightarrow> jsval \<Rightarrow> error + prim" where
  "js_add rt a b =
     (case ToPrimitive rt b of
        Inl e \<Rightarrow> Inl e
      | Inr pb \<Rightarrow>
          Inr (if is_string a \<or> is_string pb then PStr (ToString rt a @ ToString rt pb)
               else PNum (fadd (ToNumber rt a) (ToNumber rt pb))))"

text \<open>\<^verbatim>\<open>Array.prototype.reduce\<close> with an initial value, left to right; a throwing
  callback ends it.\<close>

fun reduce :: "('a \<Rightarrow> 'b \<Rightarrow> error + 'a) \<Rightarrow> 'a \<Rightarrow> 'b list \<Rightarrow> error + 'a" where
  "reduce f a [] = Inr a"
| "reduce f a (x # xs) = (case f a x of Inl e \<Rightarrow> Inl e | Inr a' \<Rightarrow> reduce f a' xs)"

text \<open>\<^verbatim>\<open>arr.reduce((a, b) => a + b, 0) / arr.length\<close>\<close>

definition mean :: "runtime \<Rightarrow> jsval list \<Rightarrow> error + jsnum" where
  "mean rt arr =
     (case reduce (js_add rt) (PNum (Fin 0)) arr of
        Inl e \<Rightarrow> Inl e
      | Inr s \<Rightarrow> Inr (fdiv (ToNumber rt s) (number_of_length (length arr))))"

subsection \<open>calculateStats\<close>

record stats =
  total :: nat
  averagePrice :: jsnum

datatype file_result = ReadFails | NotJson | Parsed json

text \<open>Lines 21 and 22: \<^verbatim>\<open>fs.readFile\<close> rejects, \<^verbatim>\<open>JSON.parse\<close> throws, or \<open>items\<close> is bound.\<close>

definition read_items :: "file_result \<Rightarrow> error + json" where
  "read_items fr =
     (case fr of ReadFails \<Rightarrow> Inl FsError | NotJson \<Rightarrow> Inl SyntaxError | Parsed items \<Rightarrow> Inr items)"

text \<open>
  \<^verbatim>\<open>items.length === 0\<close>. Reading a property of \<^verbatim>\<open>null\<close> throws. An array and a string
  have their length; an object has one if it has an own property \<^verbatim>\<open>length\<close>; a boolean
  and a number have none, and \<^verbatim>\<open>undefined === 0\<close> is false.
\<close>

definition length_is_zero :: "json \<Rightarrow> error + bool" where
  "length_is_zero items =
     (case items of
        JNull \<Rightarrow> Inl TypeError
      | JArr xs \<Rightarrow> Inr (xs = [])
      | JStr s \<Rightarrow> Inr (s = [])
      | JObj kvs \<Rightarrow> Inr (case map_of kvs ''length'' of Some (JNum x) \<Rightarrow> is_zero x | _ \<Rightarrow> False)
      | _ \<Rightarrow> Inr False)"

text \<open>\<^verbatim>\<open>item => item.price\<close>: only an object can have the property; \<^verbatim>\<open>null\<close> throws.\<close>

definition price_of :: "json \<Rightarrow> error + jsval" where
  "price_of item =
     (case item of
        JNull \<Rightarrow> Inl TypeError
      | JObj kvs \<Rightarrow> Inr (map_of kvs ''price'')
      | _ \<Rightarrow> Inr None)"

text \<open>\<^verbatim>\<open>Array.prototype.map\<close> with a callback that may throw.\<close>

fun array_map :: "('a \<Rightarrow> error + 'b) \<Rightarrow> 'a list \<Rightarrow> error + 'b list" where
  "array_map f [] = Inr []"
| "array_map f (x # xs) =
     (case f x of
        Inl e \<Rightarrow> Inl e
      | Inr y \<Rightarrow> (case array_map f xs of Inl e \<Rightarrow> Inl e | Inr ys \<Rightarrow> Inr (y # ys)))"

text \<open>Line 28. Only an array has a callable \<^verbatim>\<open>map\<close>; calling it on anything else is a
  TypeError.\<close>

definition collect_prices :: "json \<Rightarrow> error + jsval list" where
  "collect_prices items =
     (case items of JArr xs \<Rightarrow> array_map price_of xs | _ \<Rightarrow> Inl TypeError)"

text \<open>\<^verbatim>\<open>items.length\<close> on line 31, reached for arrays only.\<close>

definition items_length :: "json \<Rightarrow> nat" where
  "items_length items = (case items of JArr xs \<Rightarrow> length xs | _ \<Rightarrow> 0)"

text \<open>
  The \<^verbatim>\<open>try\<close> block up to the call \<^verbatim>\<open>mean(prices)\<close>: it throws, returns the stats of
  the empty set (\<open>Inr (Inl st)\<close>), or reaches the call with \<^verbatim>\<open>items.length\<close> and
  \<open>prices\<close> (\<open>Inr (Inr (n, prices))\<close>).
\<close>

definition calculateStats_head :: "file_result \<Rightarrow> error + (stats + nat \<times> jsval list)" where
  "calculateStats_head fr =
     (case read_items fr of
        Inl e \<Rightarrow> Inl e
      | Inr items \<Rightarrow>
          (case length_is_zero items of
             Inl e \<Rightarrow> Inl e
           | Inr True \<Rightarrow> Inr (Inl \<lparr>total = 0, averagePrice = Fin 0\<rparr>)
           | Inr False \<Rightarrow>
               (case collect_prices items of
                  Inl e \<Rightarrow> Inl e
                | Inr prices \<Rightarrow> Inr (Inr (items_length items, prices)))))"

text \<open>The whole \<^verbatim>\<open>try\<close> block.\<close>

definition calculateStats_try :: "runtime \<Rightarrow> file_result \<Rightarrow> error + stats" where
  "calculateStats_try rt fr =
     (case calculateStats_head fr of
        Inl e \<Rightarrow> Inl e
      | Inr (Inl st) \<Rightarrow> Inr st
      | Inr (Inr (n, prices)) \<Rightarrow>
          (case mean rt prices of
             Inl e \<Rightarrow> Inl e
           | Inr avg \<Rightarrow> Inr \<lparr>total = n, averagePrice = avg\<rparr>))"

text \<open>A line written to the console by \<^verbatim>\<open>console.log\<close> or \<^verbatim>\<open>console.error\<close>.\<close>

datatype log_entry =
    Log string
  | LogStats string stats
  | LogError string error

text \<open>\<^verbatim>\<open>calculateStats\<close>: the result of the promise and what the \<^verbatim>\<open>catch\<close> block
  writes before it throws the error again.\<close>

definition calculateStats :: "runtime \<Rightarrow> file_result \<Rightarrow> (error + stats) \<times> log_entry list" where
  "calculateStats rt fr =
     (case calculateStats_try rt fr of
        Inl err \<Rightarrow> (Inl err, [LogError ''Error calculating stats:'' err])
      | Inr st \<Rightarrow> (Inr st, []))"

subsection \<open>The cache, the watcher and the debounce timer\<close>

type_synonym time = nat

text \<open>
  The module's variables and what the event loop holds for it.
  \<^item> \<open>statsCache\<close>: \<open>None\<close> is \<^verbatim>\<open>null\<close>.
  \<^item> \<open>debounceTimer\<close>: \<open>None\<close> is \<^verbatim>\<open>null\<close>, \<open>Some h\<close> the handle that \<^verbatim>\<open>setTimeout\<close>
    returned last. The variable keeps the handle after the timeout has fired.
  \<^item> \<open>timers\<close>: the timeouts that are armed, each with its handle and its deadline, in
    the order in which they were armed.
  \<^item> \<open>next_handle\<close>: the handle that the next \<^verbatim>\<open>setTimeout\<close> returns.
  \<^item> \<open>watching\<close>: \<^verbatim>\<open>fs.watch\<close> has installed the listener.
  \<^item> \<open>in_flight\<close>: timeout callbacks suspended at \<^verbatim>\<open>await calculateStats()\<close>.
  \<^item> \<open>recomputes\<close>: the times at which a timeout callback called \<^verbatim>\<open>calculateStats\<close>.
  \<^item> \<open>console\<close>: the lines written so far.
\<close>

record state =
  statsCache :: "stats option"
  debounceTimer :: "nat option"
  timers :: "(nat \<times> time) list"
  next_handle :: nat
  watching :: bool
  in_flight :: nat
  recomputes :: "time list"
  console :: "log_entry list"

definition initial_state :: state where
  "initial_state =
     \<lparr>statsCache = None, debounceTimer = None, timers = [], next_handle = 0,
      watching = False, in_flight = 0, recomputes = [], console = []\<rparr>"

definition getStats :: "state \<Rightarrow> stats option" where
  "getStats s = statsCache s"

definition delay :: time where
  "delay = 300"

text \<open>\<^verbatim>\<open>clearTimeout(handle)\<close> disarms the timeout with that handle, if it is armed; on
  \<^verbatim>\<open>null\<close> and on the handle of a timeout that has fired it does nothing.\<close>

definition clearTimeout :: "nat option \<Rightarrow> state \<Rightarrow> state" where
  "clearTimeout handle s = s\<lparr>timers := filter (\<lambda>t. Some (fst t) \<noteq> handle) (timers s)\<rparr>"

text \<open>\<^verbatim>\<open>setTimeout(callback, ms)\<close> at time \<open>now\<close> arms one more timeout and returns its
  handle; the timeouts armed before stay armed.\<close>

definition setTimeout :: "time \<Rightarrow> time \<Rightarrow> state \<Rightarrow> nat \<times> state" where
  "setTimeout now ms s =
     (next_handle s,
      s\<lparr>timers := timers s @ [(next_handle s, now + ms)], next_handle := Suc (next_handle s)\<rparr>)"

text \<open>The listener given to \<^verbatim>\<open>fs.watch\<close> (lines 51 to 64), called at time \<open>now\<close>.\<close>

definition watch_callback :: "time \<Rightarrow> string \<Rightarrow> state \<Rightarrow> state" where
  "watch_callback now eventType s =
     (if eventType = ''change''
      then let s1 = clearTimeout (debounceTimer s) s;
               armed = setTimeout now delay s1
           in (snd armed)\<lparr>debounceTimer := Some (fst armed)\<rparr>
      else s)"

text \<open>The callback of a timeout that fires at its deadline \<open>d\<close> calls \<^verbatim>\<open>calculateStats\<close>,
  which starts to read the file, and is suspended at the \<^verbatim>\<open>await\<close>.\<close>

definition timeout_fires :: "time \<Rightarrow> state \<Rightarrow> state" where
  "timeout_fires d s =
     s\<lparr>in_flight := Suc (in_flight s), recomputes := recomputes s @ [d]\<rparr>"

text \<open>
  The read of a suspended callback ends with outcome \<open>fr\<close>: \<^verbatim>\<open>calculateStats\<close> runs to
  its end and the callback resumes (lines 57 to 61). The first component is how the
  promise of the callback settles: \<open>Inr ()\<close> is fulfilled, \<open>Inl e\<close> would be a rejection
  that nothing handles.
\<close>

definition recompute_settles :: "runtime \<Rightarrow> file_result \<Rightarrow> state \<Rightarrow> (error + unit) \<times> state" where
  "recompute_settles rt fr s =
     (case calculateStats rt fr of
        (Inr st, out) \<Rightarrow>
          (Inr (),
           s\<lparr>statsCache := Some st, in_flight := in_flight s - 1,
             console := console s @ out @ [LogStats ''Stats cache updated:'' st]\<rparr>)
      | (Inl err, out) \<Rightarrow>
          (Inr (),
           s\<lparr>in_flight := in_flight s - 1,
             console := console s @ out @ [LogError ''Error updating stats cache:'' err]\<rparr>))"

text \<open>
  \<^verbatim>\<open>initStatsCache\<close>. \<open>fr\<close> is the outcome of the first read; \<open>watch_error\<close> is \<open>Some e\<close>
  when \<^verbatim>\<open>fs.watch\<close> throws \<open>e\<close>. The first component is the result of the promise.
\<close>

definition initStatsCache ::
  "runtime \<Rightarrow> file_result \<Rightarrow> error option \<Rightarrow> state \<Rightarrow> (error + unit) \<times> state" where
  "initStatsCache rt fr watch_error s =
     (case calculateStats rt fr of
        (Inl err, out) \<Rightarrow>
          (Inl err,
           s\<lparr>console := console s @ out @ [LogError ''Error initializing stats cache:'' err]\<rparr>)
      | (Inr st, out) \<Rightarrow>
          (let s1 = s\<lparr>statsCache := Some st,
                       console := console s @ out @ [LogStats ''Stats cache initialized:'' st]\<rparr>
           in case watch_error of
                Some err \<Rightarrow>
                  (Inl err,
                   s1\<lparr>console := console s1 @ [LogError ''Error initializing stats cache:'' err]\<rparr>)
              | None \<Rightarrow>
                  (Inr (),
                   s1\<lparr>watching := True,
                      console := console s1 @ [Log ''File watcher initialized for:'']\<rparr>)))"

subsection \<open>The event loop\<close>

text \<open>Time passes until \<open>now\<close>: every armed timeout whose deadline has come leaves the
  table and fires, the earlier deadline first, equal deadlines in the order of arming.\<close>

definition advance :: "time \<Rightarrow> state \<Rightarrow> state" where
  "advance now s =
     fold timeout_fires
       (map snd (sort_key snd (filter (\<lambda>t. snd t \<le> now) (timers s))))
       (s\<lparr>timers := filter (\<lambda>t. \<not> snd t \<le> now) (timers s)\<rparr>)"

text \<open>What can happen after initialization: the watcher reports an event of the given
  type, or the read of a suspended callback ends.\<close>

datatype event = FsEvent string | ReadDone file_result

definition step :: "runtime \<Rightarrow> time \<times> event \<Rightarrow> state \<Rightarrow> state" where
  "step rt te s =
     (let s1 = advance (fst te) s
      in case snd te of
           FsEvent eventType \<Rightarrow> if watching s1 then watch_callback (fst te) eventType s1 else s1
         | ReadDone fr \<Rightarrow> if in_flight s1 = 0 then s1 else snd (recompute_settles rt fr s1))"

fun run :: "runtime \<Rightarrow> (time \<times> event) list \<Rightarrow> state \<Rightarrow> state" where
  "run rt [] s = s"
| "run rt (te # tes) s = run rt tes (step rt te s)"

subsection \<open>The route GET /api/stats\<close>

record http_error =
  message :: string
  status :: nat

text \<open>The handler either sends the stats as JSON or passes an error to \<^verbatim>\<open>next\<close>.\<close>

datatype response = Json stats | Next http_error

definition stats_route :: "state \<Rightarrow> response" where
  "stats_route s =
     (case getStats s of
        None \<Rightarrow> Next \<lparr>message = ''Stats not initialized'', status = 503\<rparr>
      | Some st \<Rightarrow> Json st)"

subsection \<open>Notions of the specification\<close>

text \<open>
  A record set as the data model has it: every record is an object whose \<^verbatim>\<open>price\<close> is
  a number. \<open>numeric_prices\<close> returns these numbers in order, or \<open>None\<close> if some record
  has no such price.
\<close>

fun numeric_prices :: "json list \<Rightarrow> jsnum list option" where
  "numeric_prices [] = Some []"
| "numeric_prices (r # rs) =
     (case r of
        JObj kvs \<Rightarrow>
          (case map_of kvs ''price'' of
             Some (JNum p) \<Rightarrow> map_option ((#) p) (numeric_prices rs)
           | _ \<Rightarrow> None)
      | _ \<Rightarrow> None)"

text \<open>The arithmetic mean of rational numbers, in exact arithmetic.\<close>

definition arithmetic_mean :: "rat list \<Rightarrow> rat" where
  "arithmetic_mean qs = sum_list qs / of_nat (length qs)"

text \<open>\<open>sum(price)\<close> and \<open>sum(price) / total\<close> computed in floating point: the prices are
  added from left to right, starting from zero, each sum rounded.\<close>

definition float_sum :: "jsnum list \<Rightarrow> jsnum" where
  "float_sum ps = foldl fadd (Fin 0) ps"

definition float_mean :: "jsnum list \<Rightarrow> jsnum" where
  "float_mean ps = fdiv (float_sum ps) (number_of_length (length ps))"

text \<open>The prices of the record set that a read delivered, if it delivered an array of
  records with numeric prices; and the number of records of the array it delivered.\<close>

definition record_prices :: "file_result \<Rightarrow> jsnum list option" where
  "record_prices fr = (case fr of Parsed (JArr recs) \<Rightarrow> numeric_prices recs | _ \<Rightarrow> None)"

definition record_count :: "file_result \<Rightarrow> nat" where
  "record_count fr = (case fr of Parsed (JArr recs) \<Rightarrow> length recs | _ \<Rightarrow> 0)"

text \<open>
  The invariant of a Stats value, for what a read delivered. The total is a natural
  number by its type. If the total is zero the average is zero; otherwise the average
  is \<open>sum(price) / total\<close>, computed in floating point. Where a record has no numeric
  price there is no such sum, and a total other than zero does not satisfy it.
\<close>

definition Stats_invariant :: "file_result \<Rightarrow> stats \<Rightarrow> bool" where
  "Stats_invariant fr st \<longleftrightarrow>
     (total st = 0 \<longrightarrow> averagePrice st = Fin 0) \<and>
     (total st \<noteq> 0 \<longrightarrow>
        (case record_prices fr of
           Some ps \<Rightarrow> averagePrice st = fdiv (float_sum ps) (number_of_length (total st))
         | None \<Rightarrow> False))"

text \<open>A price that is a number or is absent.\<close>

fun number_or_absent :: "jsval \<Rightarrow> bool" where
  "number_or_absent None = True"
| "number_or_absent (Some (JNum x)) = True"
| "number_or_absent v = False"

text \<open>A run of \<^verbatim>\<open>calculateStats\<close> on the outcome \<open>fr\<close> fails.\<close>

definition fails :: "runtime \<Rightarrow> file_result \<Rightarrow> bool" where
  "fails rt fr = (case fst (calculateStats rt fr) of Inl e \<Rightarrow> True | Inr st \<Rightarrow> False)"

text \<open>An event that is not the successful end of a read.\<close>

definition no_success :: "runtime \<Rightarrow> time \<times> event \<Rightarrow> bool" where
  "no_success rt te = (case snd te of ReadDone fr \<Rightarrow> fails rt fr | FsEvent eventType \<Rightarrow> True)"

text \<open>The outcomes of the reads that end during a list of events.\<close>

fun reads_done :: "(time \<times> event) list \<Rightarrow> file_result list" where
  "reads_done [] = []"
| "reads_done (te # tes) =
     (case snd te of ReadDone fr \<Rightarrow> fr # reads_done tes | FsEvent eventType \<Rightarrow> reads_done tes)"

text \<open>An event other than a \<^verbatim>\<open>change\<close> notification.\<close>

definition not_change :: "time \<times> event \<Rightarrow> bool" where
  "not_change te = (case snd te of FsEvent eventType \<Rightarrow> eventType \<noteq> ''change'' | ReadDone fr \<Rightarrow> True)"

text \<open>A burst: notification times in order, each less than the delay after the one
  before.\<close>

fun burst :: "time list \<Rightarrow> bool" where
  "burst (t # u # ts) = (t \<le> u \<and> u < t + delay \<and> burst (u # ts))"
| "burst ts = True"

text \<open>The times of the \<^verbatim>\<open>change\<close> notifications among a list of events.\<close>

definition change_times :: "(time \<times> event) list \<Rightarrow> time list" where
  "change_times tes = map fst (filter (\<lambda>te. \<not> not_change te) tes)"

text \<open>Notifications of the watcher, each a time and an event type, as events.\<close>

definition notifications :: "(time \<times> string) list \<Rightarrow> (time \<times> event) list" where
  "notifications ns = map (\<lambda>n. (fst n, FsEvent (snd n))) ns"

text \<open>Every armed timeout is the one that \<open>debounceTimer\<close> names.\<close>

definition owned :: "state \<Rightarrow> bool" where
  "owned s \<longleftrightarrow> list_all (\<lambda>t. debounceTimer s = Some (fst t)) (timers s)"

text \<open>
  Statements about one concrete input need a concrete runtime. In the inputs used
  below every price is a number or is absent, so neither conversion is reached, and by
  \<open>calculateStats_runtime\<close> the result is the same for every runtime.
\<close>

definition some_runtime :: runtime where
  "some_runtime = \<lparr>NumberToString = (\<lambda>x. ''NaN''), StringToNumber = (\<lambda>s. NaN)\<rparr>"

text \<open>A catalog entry with the given price.\<close>

definition item :: "rat \<Rightarrow> json" where
  "item p = JObj [(''name'', JStr ''Desk''), (''price'', JNum (Fin p))]"

text \<open>No timeout is due at time \<open>now\<close>: the deadline of every armed one lies ahead.\<close>

definition not_due :: "time \<Rightarrow> state \<Rightarrow> bool" where
  "not_due now s \<longleftrightarrow> list_all (\<lambda>t. now < snd t) (timers s)"

text \<open>The state after a successful start on a file with one entry.\<close>

definition started :: state where
  "started = snd (initStatsCache some_runtime (Parsed (JArr [item 10])) None initial_state)"

section \<open>Properties\<close>

subsection \<open>Rounding\<close>

text \<open>\<open>round64\<close> leaves an integer below \<open>2 ^ 53\<close> and a power of two below \<open>2 ^ 1024\<close> as
  they are, and sends everything from \<open>2 ^ 1024\<close> on to infinity.\<close>

lemma round_half_even_of_int: "round_half_even (of_int m) = m"
  by (simp add: round_half_even_def)

lemma bitlen_less_pow:
  assumes "0 < x" and "x < 2 ^ n"
  shows "bitlen x \<le> int n"
proof -
  have "(2::int) ^ nat (bitlen x - 1) \<le> x"
    using bitlen_bounds [OF assms(1)] by simp
  then have "(2::int) ^ nat (bitlen x - 1) < 2 ^ n"
    using assms(2) by linarith
  then have "nat (bitlen x - 1) < n"
    by simp
  then show ?thesis by linarith
qed

lemma bitlen_ge_pow:
  assumes "2 ^ n \<le> x"
  shows "int n < bitlen x"
proof -
  have "(0::int) < 2 ^ n"
    by simp
  then have pos: "0 < x"
    using assms by (rule less_le_trans)
  have "x < 2 ^ nat (bitlen x)"
    using bitlen_bounds [OF pos] by simp
  then have "(2::int) ^ n < 2 ^ nat (bitlen x)"
    using assms by linarith
  then have "n < nat (bitlen x)"
    by simp
  then show ?thesis by linarith
qed

lemma round64_of_int:
  assumes "n \<noteq> 0" and "\<bar>n\<bar> < 2 ^ 53"
  shows "round64 (of_int n) = Fin (of_int n)"
proof -
  define m where "m = \<bar>n\<bar>"
  define a :: rat where "a = of_int m"
  define q :: rat where "q = of_int n"
  have mpos: "0 < m" and mlt: "m < 2 ^ 53"
    using assms by (simp_all add: m_def)
  have abs_eq: "\<bar>q\<bar> = a"
    by (simp add: m_def a_def q_def)
  have one_le: "1 \<le> a"
    using mpos by (simp add: a_def of_int_1_le_iff)
  have il: "ilog2 a = bitlen m - 1"
    using one_le by (simp add: ilog2_def a_def)
  have b1: "1 \<le> bitlen m"
    using bitlen_ge_pow [of 0 m] mpos by simp
  have b2: "bitlen m \<le> 53"
    using bitlen_less_pow [OF mpos mlt] by simp
  define k where "k = nat (53 - bitlen m)"
  have e_eq: "max (ilog2 a - 52) (- 1074) = - int k"
    using b1 b2 by (simp add: il k_def)
  have pw: "pow2 (- int k) = 1 / 2 ^ k"
    by (cases "k = 0") (simp_all add: pow2_def)
  have quot: "a / pow2 (- int k) = of_int (m * 2 ^ k)"
    by (simp add: pw a_def)
  have v: "of_int (round_half_even (a / pow2 (- int k))) * pow2 (- int k) = a"
    unfolding quot round_half_even_of_int by (simp add: pw a_def)
  have "a < of_int (2 ^ 53)"
    unfolding a_def using mlt by (simp only: of_int_less_iff)
  also have "\<dots> \<le> 2 ^ 1024"
    by simp
  finally have small: "(2 ^ 1024 \<le> a) = False"
    by simp
  have nz: "(a = 0) = False" "(q = 0) = False"
    using mpos assms(1) by (simp_all add: a_def q_def)
  have sgn: "(if 0 < q then a else - a) = q"
    by (simp add: m_def a_def q_def)
  have "round64 q = Fin q"
    unfolding round64_def Let_def abs_eq e_eq v
    by (simp only: small nz sgn if_False)
  then show ?thesis
    by (simp only: q_def)
qed

lemma round64_numeral [simp]:
  "(numeral w :: int) < 9007199254740992 \<Longrightarrow> round64 (numeral w) = Fin (numeral w)"
  using round64_of_int [of "numeral w"] by simp




subsection \<open>calculateStats\<close>

lemmas calc_defs = calculateStats_def calculateStats_try_def calculateStats_head_def
  read_items_def length_is_zero_def collect_prices_def items_length_def

lemma array_map_length: "array_map f xs = Inr ys \<Longrightarrow> length ys = length xs"
  by (induction xs arbitrary: ys) (auto split: sum.splits)

text \<open>Called on the empty array, \<^verbatim>\<open>mean\<close> would divide zero by zero, which is NaN.\<close>

lemma mean_Nil: "mean rt [] = Inr NaN"
  by (simp add: mean_def ToNumber_def fdiv_def number_of_length_def is_zero_def is_inf_def)

lemma calculateStats_head_prices:
  assumes "calculateStats_head fr = Inr (Inr (n, prices))"
  shows "prices \<noteq> [] \<and> n = length prices"
proof -
  from assms obtain items where items: "fr = Parsed items"
    by (cases fr) (simp_all add: calculateStats_head_def read_items_def)
  from assms items obtain xs where xs: "items = JArr xs"
    by (cases items)
      (simp_all add: calculateStats_head_def read_items_def length_is_zero_def collect_prices_def
        split: bool.splits)
  from assms items xs have ne: "xs \<noteq> []" and am: "array_map price_of xs = Inr prices"
    and n: "n = length xs"
    by (auto simp: calc_defs split: if_splits sum.splits bool.splits)
  from am have "length prices = length xs"
    by (rule array_map_length)
  with ne n show ?thesis
    by auto
qed

text \<open>
  Claim C2. On the empty record set \<^verbatim>\<open>calculateStats\<close> returns exactly
  \<open>{total: 0, averagePrice: 0}\<close>, and whenever it reaches the call of \<^verbatim>\<open>mean\<close> the array
  it passes is not empty, so the divisor \<^verbatim>\<open>arr.length\<close> is never zero.
\<close>

theorem calculateStats_empty:
  "calculateStats rt (Parsed (JArr [])) = (Inr \<lparr>total = 0, averagePrice = Fin 0\<rparr>, []) \<and>
   (calculateStats_head fr = Inr (Inr (n, prices)) \<longrightarrow>
      prices \<noteq> [] \<and> \<not> is_zero (number_of_length (length prices)))"
proof (intro conjI impI)
  show "calculateStats rt (Parsed (JArr [])) = (Inr \<lparr>total = 0, averagePrice = Fin 0\<rparr>, [])"
    by (simp add: calc_defs)
next
  assume "calculateStats_head fr = Inr (Inr (n, prices))"
  then have "prices \<noteq> []"
    using calculateStats_head_prices by blast
  then show "prices \<noteq> []" and "\<not> is_zero (number_of_length (length prices))"
    by (simp_all add: is_zero_def number_of_length_def)
qed

theorem calculateStats_empty_witness:
  "calculateStats_head (Parsed (JArr [item 10])) = Inr (Inr (1, [Some (JNum (Fin 10))])) \<and>
   calculateStats some_runtime (Parsed (JArr [])) = (Inr \<lparr>total = 0, averagePrice = Fin 0\<rparr>, []) \<and>
   [Some (JNum (Fin 10))] \<noteq> [] \<and>
   \<not> is_zero (number_of_length (length [Some (JNum (Fin 10))]))"
proof -
  have h: "calculateStats_head (Parsed (JArr [item 10])) = Inr (Inr (1, [Some (JNum (Fin 10))]))"
    by (simp add: calc_defs price_of_def item_def)
  show ?thesis
    using h calculateStats_empty [of some_runtime "Parsed (JArr [item 10])" 1 "[Some (JNum (Fin 10))]"]
    by simp
qed

lemma price_of_simps [simp]:
  "price_of JNull = Inl TypeError"
  "price_of (JBool b) = Inr None"
  "price_of (JNum x) = Inr None"
  "price_of (JStr str) = Inr None"
  "price_of (JArr xs) = Inr None"
  "price_of (JObj kvs) = Inr (map_of kvs ''price'')"
  by (simp_all add: price_of_def)

lemma calculateStats_array:
  "calculateStats rt (Parsed (JArr recs)) =
     (if recs = [] then (Inr \<lparr>total = 0, averagePrice = Fin 0\<rparr>, [])
      else case array_map price_of recs of
             Inl e \<Rightarrow> (Inl e, [LogError ''Error calculating stats:'' e])
           | Inr prices \<Rightarrow>
               (case mean rt prices of
                  Inl e \<Rightarrow> (Inl e, [LogError ''Error calculating stats:'' e])
                | Inr avg \<Rightarrow> (Inr \<lparr>total = length recs, averagePrice = avg\<rparr>, [])))"
  by (cases "recs = []") (simp_all add: calc_defs split: sum.splits)

lemma numeric_prices_array_map:
  "numeric_prices recs = Some ps \<Longrightarrow>
   array_map price_of recs = Inr (map (\<lambda>p. Some (JNum p)) ps) \<and> length ps = length recs"
  by (induction recs arbitrary: ps)
    (auto split: json.splits option.splits)

lemma reduce_numbers:
  "reduce (js_add rt) (PNum a) (map (\<lambda>p. Some (JNum p)) ps) = Inr (PNum (foldl fadd a ps))"
  by (induction ps arbitrary: a) (simp_all add: js_add_def ToPrimitive_def ToNumber_def)

lemma mean_numbers: "mean rt (map (\<lambda>p. Some (JNum p)) ps) = Inr (float_mean ps)"
  by (simp add: mean_def reduce_numbers ToNumber_def float_mean_def float_sum_def)

text \<open>
  Where nothing is rounded the floating-point mean is the arithmetic mean: for integer
  prices whose running sums stay below \<open>2 ^ 53\<close> in size and whose sum is a multiple of
  their number.
\<close>

lemma fadd_ints:
  assumes "\<bar>a + n\<bar> < 2 ^ 53"
  shows "fadd (Fin (of_int a)) (Fin (of_int n)) = Fin (of_int (a + n))"
proof (cases "a + n = 0")
  case True
  have "(of_int a :: rat) + of_int n = of_int (a + n)"
    by (simp only: of_int_add)
  then have "(of_int a :: rat) + of_int n = 0"
    by (simp only: True of_int_0)
  with True show ?thesis by simp
next
  case False
  have "(of_int a :: rat) + of_int n = of_int (a + n)"
    by (simp only: of_int_add)
  with False have nz: "(of_int a :: rat) + of_int n \<noteq> 0"
    by (simp only: of_int_eq_0_iff) simp
  have "round64 (of_int (a + n)) = Fin (of_int (a + n))"
    using False assms by (rule round64_of_int)
  with nz show ?thesis by simp
qed

lemma foldl_fadd_ints:
  assumes "\<And>k. k \<le> length ns \<Longrightarrow> \<bar>a + sum_list (take k ns)\<bar> < 2 ^ 53"
  shows "foldl fadd (Fin (of_int a)) (map (\<lambda>n. Fin (of_int n)) ns) = Fin (of_int (a + sum_list ns))"
  using assms
proof (induction ns arbitrary: a)
  case Nil
  show ?case by simp
next
  case (Cons n ns)
  have first: "\<bar>a + n\<bar> < 2 ^ 53"
    using Cons.prems [of 1] by simp
  have later: "\<bar>(a + n) + sum_list (take k ns)\<bar> < 2 ^ 53" if "k \<le> length ns" for k
    using Cons.prems [of "Suc k"] that by (simp add: add.assoc)
  have "foldl fadd (Fin (of_int (a + n))) (map (\<lambda>n. Fin (of_int n)) ns) =
      Fin (of_int ((a + n) + sum_list ns))"
    using later by (rule Cons.IH)
  moreover have "foldl fadd (Fin (of_int a)) (map (\<lambda>n. Fin (of_int n)) (n # ns)) =
      foldl fadd (fadd (Fin (of_int a)) (Fin (of_int n))) (map (\<lambda>n. Fin (of_int n)) ns)"
    by (simp only: list.map foldl_Cons)
  moreover have "a + sum_list (n # ns) = (a + n) + sum_list ns"
    by simp
  ultimately show ?case
    by (simp only: fadd_ints [OF first])
qed

lemma sum_list_of_int: "sum_list (map of_int ns) = (of_int (sum_list ns) :: rat)"
  by (induction ns) simp_all

lemma float_mean_exact:
  assumes "ns \<noteq> []"
    and "\<And>k. k \<le> length ns \<Longrightarrow> \<bar>sum_list (take k ns)\<bar> < 2 ^ 53"
    and "int (length ns) dvd sum_list ns"
  shows "float_mean (map (\<lambda>n. Fin (of_int n)) ns) = Fin (arithmetic_mean (map of_int ns))"
proof -
  define S where "S = sum_list ns"
  define N where "N = int (length ns)"
  have Npos: "0 < N"
    using assms(1) by (simp add: N_def)
  from assms(3) obtain m where m: "S = N * m"
    unfolding S_def N_def by (auto elim: dvdE)
  have sum: "float_sum (map (\<lambda>n. Fin (of_int n)) ns) = Fin (of_int S)"
    using foldl_fadd_ints [of ns 0] assms(2) by (simp add: float_sum_def S_def)
  have len: "number_of_length (length ns) = Fin (of_int N)"
    by (simp add: number_of_length_def N_def)
  have quot: "(of_int S :: rat) / of_int N = of_int m"
    using Npos by (simp add: m)
  have mean: "arithmetic_mean (map of_int ns) = of_int m"
    using quot by (simp add: arithmetic_mean_def sum_list_of_int S_def N_def)
  have Nnz: "(of_int N :: rat) \<noteq> 0" and Nsign: "\<not> (of_int N :: rat) < 0"
    using Npos by simp_all
  show ?thesis
  proof (cases "S = 0")
    case True
    with m Npos have "m = 0"
      by simp
    with True Nnz Nsign show ?thesis
      by (simp add: float_mean_def sum len mean fdiv_def is_zero_def is_inf_def signed_zero_def)
  next
    case False
    with m have mnz: "m \<noteq> 0"
      by auto
    have "\<bar>S\<bar> < 2 ^ 53"
      using assms(2) [of "length ns"] by (simp add: S_def)
    moreover have "\<bar>m\<bar> \<le> \<bar>S\<bar>"
    proof -
      have "1 * \<bar>m\<bar> \<le> N * \<bar>m\<bar>"
        by (rule mult_right_mono) (use Npos in simp_all)
      then show ?thesis
        using Npos by (simp add: m abs_mult)
    qed
    ultimately have "\<bar>m\<bar> < 2 ^ 53"
      by linarith
    with mnz have "round64 (of_int m) = Fin (of_int m)"
      by (rule round64_of_int)
    moreover have "(of_int S :: rat) \<noteq> 0"
      using False by simp
    ultimately show ?thesis
      using Nnz by (simp add: float_mean_def sum len mean fdiv_def is_zero_def is_inf_def quot)
  qed
qed

lemma calculateStats_float_mean:
  assumes "recs \<noteq> []" and "numeric_prices recs = Some ps"
  shows "calculateStats rt (Parsed (JArr recs)) =
           (Inr \<lparr>total = length recs, averagePrice = float_mean ps\<rparr>, [])"
proof -
  have "array_map price_of recs = Inr (map (\<lambda>p. Some (JNum p)) ps)"
    using numeric_prices_array_map [OF assms(2)] by simp
  then show ?thesis
    using assms(1) by (simp add: calc_defs mean_numbers)
qed


lemma float_mean_10_20_30: "float_mean [Fin 10, Fin 20, Fin 30] = Fin 20"
  by (simp add: float_mean_def float_sum_def fdiv_def number_of_length_def is_zero_def is_inf_def)





text \<open>An absent price is \<^verbatim>\<open>undefined\<close>, which \<^verbatim>\<open>+\<close> turns into NaN; NaN then stays.\<close>

lemma fadd_NaN_right: "fadd x NaN = NaN"
  by (cases x) simp_all

lemma reduce_number_or_absent:
  "list_all number_or_absent ps \<Longrightarrow>
   \<exists>x. reduce (js_add rt) (PNum a) ps = Inr (PNum x) \<and> (a = NaN \<or> None \<in> set ps \<longrightarrow> x = NaN)"
proof (induction ps arbitrary: a)
  case Nil
  then show ?case by simp
next
  case (Cons v vs)
  then have rest: "list_all number_or_absent vs" and v: "number_or_absent v"
    by simp_all
  show ?case
  proof (cases v)
    case None
    have step: "js_add rt (PNum a) None = Inr (PNum NaN)"
      by (simp add: js_add_def ToPrimitive_def ToNumber_def fadd_NaN_right)
    from Cons.IH [OF rest, of NaN] obtain x
      where "reduce (js_add rt) (PNum NaN) vs = Inr (PNum x)" and "x = NaN"
      by auto
    with None step show ?thesis
      by simp
  next
    case (Some j)
    with v obtain y where j: "j = JNum y"
      by (cases j) simp_all
    have step: "js_add rt (PNum a) (Some (JNum y)) = Inr (PNum (fadd a y))"
      by (simp add: js_add_def ToPrimitive_def ToNumber_def)
    from Cons.IH [OF rest, of "fadd a y"] obtain x
      where x: "reduce (js_add rt) (PNum (fadd a y)) vs = Inr (PNum x)"
        and nan: "fadd a y = NaN \<or> None \<in> set vs \<longrightarrow> x = NaN"
      by auto
    have "a = NaN \<or> None \<in> set (v # vs) \<longrightarrow> x = NaN"
      using nan Some by auto
    with Some j step x show ?thesis
      by simp
  qed
qed

lemma array_map_null:
  "JNull \<in> set recs \<Longrightarrow> array_map price_of recs = Inl TypeError"
proof (induction recs)
  case Nil
  then show ?case by simp
next
  case (Cons r rs)
  show ?case
  proof (cases "r = JNull")
    case True
    then show ?thesis by simp
  next
    case False
    with Cons have "array_map price_of rs = Inl TypeError"
      by simp
    then show ?thesis
      by (cases r) simp_all
  qed
qed

lemma calculateStats_absent_price:
  assumes "array_map price_of recs = Inr ps" and "list_all number_or_absent ps"
    and "None \<in> set ps"
  shows "calculateStats rt (Parsed (JArr recs)) =
           (Inr \<lparr>total = length recs, averagePrice = NaN\<rparr>, [])"
proof -
  have len: "length ps = length recs"
    using assms(1) by (rule array_map_length)
  have ne: "recs \<noteq> []"
    using assms(3) len by auto
  from reduce_number_or_absent [OF assms(2), of rt "Fin 0"] assms(3)
  have "reduce (js_add rt) (PNum (Fin 0)) ps = Inr (PNum NaN)"
    by auto
  then have "mean rt ps = Inr NaN"
    by (simp add: mean_def ToNumber_def fdiv_def)
  then show ?thesis
    using assms(1) ne by (simp add: calc_defs)
qed

text \<open>
  Claim C3, as amended. \<^verbatim>\<open>calculateStats\<close> fails with the underlying error when the
  file cannot be read, when its text is not JSON, and when a record is \<^verbatim>\<open>null\<close>. A record
  without a price does not make it fail: for records whose prices are numbers or absent,
  at least one of them absent, it returns a Stats value with the number of records as
  total and NaN as averagePrice.
\<close>

theorem calculateStats_failures:
  "fst (calculateStats rt ReadFails) = Inl FsError \<and>
   fst (calculateStats rt NotJson) = Inl SyntaxError \<and>
   (JNull \<in> set recs \<longrightarrow> fst (calculateStats rt (Parsed (JArr recs))) = Inl TypeError) \<and>
   (array_map price_of recs' = Inr ps \<and> list_all number_or_absent ps \<and> None \<in> set ps \<longrightarrow>
      calculateStats rt (Parsed (JArr recs')) =
        (Inr \<lparr>total = length recs', averagePrice = NaN\<rparr>, []))"
proof (intro conjI impI)
  show "fst (calculateStats rt ReadFails) = Inl FsError"
    by (simp add: calc_defs)
  show "fst (calculateStats rt NotJson) = Inl SyntaxError"
    by (simp add: calc_defs)
next
  assume null: "JNull \<in> set recs"
  then have "recs \<noteq> []"
    by auto
  then show "fst (calculateStats rt (Parsed (JArr recs))) = Inl TypeError"
    using array_map_null [OF null] by (simp add: calc_defs)
next
  assume "array_map price_of recs' = Inr ps \<and> list_all number_or_absent ps \<and> None \<in> set ps"
  then show "calculateStats rt (Parsed (JArr recs')) =
      (Inr \<lparr>total = length recs', averagePrice = NaN\<rparr>, [])"
    using calculateStats_absent_price by blast
qed

theorem calculateStats_failures_witness:
  "JNull \<in> set [item 10, JNull] \<and>
   fst (calculateStats some_runtime (Parsed (JArr [item 10, JNull]))) = Inl TypeError \<and>
   array_map price_of [item 10, JObj [(''name'', JStr ''Desk'')]] = Inr [Some (JNum (Fin 10)), None] \<and>
   list_all number_or_absent [Some (JNum (Fin 10)), None] \<and>
   None \<in> set [Some (JNum (Fin 10)), None] \<and>
   calculateStats some_runtime (Parsed (JArr [item 10, JObj [(''name'', JStr ''Desk'')]])) =
     (Inr \<lparr>total = 2, averagePrice = NaN\<rparr>, [])"
proof -
  have h: "array_map price_of [item 10, JObj [(''name'', JStr ''Desk'')]] =
      Inr [Some (JNum (Fin 10)), None]"
    by (simp add: item_def)
  show ?thesis
    using h calculateStats_failures [of some_runtime "[item 10, JNull]"
        "[item 10, JObj [(''name'', JStr ''Desk'')]]" "[Some (JNum (Fin 10)), None]"]
    by simp
qed

text \<open>
  One record without a price: no error, but a Stats value whose average is NaN.
\<close>

theorem calculateStats_absent_price_counterexample:
  "calculateStats some_runtime (Parsed (JArr [JObj [(''name'', JStr ''Desk'')]])) =
     (Inr \<lparr>total = 1, averagePrice = NaN\<rparr>, []) \<and>
   numeric_prices [JObj [(''name'', JStr ''Desk'')]] = None"
  by (simp add: calc_defs mean_def js_add_def ToPrimitive_def ToNumber_def fdiv_def)

lemma array_map_cong_map:
  "map f xs = map f ys \<Longrightarrow> array_map f xs = array_map f ys"
proof (induction xs arbitrary: ys)
  case Nil
  then show ?case by simp
next
  case (Cons x xs)
  then obtain y ys' where ys: "ys = y # ys'"
    by (cases ys) simp_all
  with Cons.prems have "f x = f y" and "map f xs = map f ys'"
    by simp_all
  with Cons.IH [of ys'] ys show ?case
    by (simp split: sum.splits)
qed

text \<open>
  Claim C9, as amended. \<^verbatim>\<open>calculateStats\<close> reads the file; what it returns for an array
  of records is determined by the sequence of their \<^verbatim>\<open>price\<close> properties alone, so two
  runs that read record sets with the same prices return the same result. Its one
  effect besides the read is the line it writes to the console when it fails.
\<close>

theorem calculateStats_depends_on_prices:
  "(map price_of recs = map price_of recs' \<longrightarrow>
      calculateStats rt (Parsed (JArr recs)) = calculateStats rt (Parsed (JArr recs'))) \<and>
   snd (calculateStats rt fr) =
     (case fst (calculateStats rt fr) of
        Inl err \<Rightarrow> [LogError ''Error calculating stats:'' err]
      | Inr st \<Rightarrow> [])"
proof (intro conjI impI)
  assume eq: "map price_of recs = map price_of recs'"
  then have "length (map price_of recs) = length (map price_of recs')"
    by simp
  then have len: "length recs = length recs'"
    by simp
  then have nil: "recs = [] \<longleftrightarrow> recs' = []"
    by auto
  have "array_map price_of recs = array_map price_of recs'"
    using eq by (rule array_map_cong_map)
  with len nil show "calculateStats rt (Parsed (JArr recs)) = calculateStats rt (Parsed (JArr recs'))"
    by (simp add: calculateStats_array split: sum.splits)
next
  show "snd (calculateStats rt fr) =
     (case fst (calculateStats rt fr) of
        Inl err \<Rightarrow> [LogError ''Error calculating stats:'' err]
      | Inr st \<Rightarrow> [])"
    by (simp add: calculateStats_def split: sum.splits)
qed

theorem calculateStats_depends_on_prices_witness:
  "map price_of [item 10] = map price_of [JObj [(''price'', JNum (Fin 10))]] \<and>
   calculateStats some_runtime (Parsed (JArr [item 10])) =
     calculateStats some_runtime (Parsed (JArr [JObj [(''price'', JNum (Fin 10))]]))"
proof -
  have h: "map price_of [item 10] = map price_of [JObj [(''price'', JNum (Fin 10))]]"
    by (simp add: item_def)
  show ?thesis
    using h calculateStats_depends_on_prices [of "[item 10]" "[JObj [(''price'', JNum (Fin 10))]]"
        some_runtime ReadFails]
    by simp
qed

text \<open>
  The function takes no argument, and its outcome changes with the state of the file:
  a failed read makes it fail and write to the console, an empty array makes it succeed.
\<close>

theorem calculateStats_io_counterexample:
  "calculateStats some_runtime ReadFails =
     (Inl FsError, [LogError ''Error calculating stats:'' FsError]) \<and>
   calculateStats some_runtime (Parsed (JArr [])) =
     (Inr \<lparr>total = 0, averagePrice = Fin 0\<rparr>, [])"
  by (simp add: calc_defs)

lemma calculateStats_runtime:
  assumes "array_map price_of recs = Inr ps" and "list_all number_or_absent ps"
  shows "calculateStats rt (Parsed (JArr recs)) = calculateStats rt' (Parsed (JArr recs))"
proof -
  have "\<And>a. reduce (js_add rt) (PNum a) ps = reduce (js_add rt') (PNum a) ps"
    using assms(2)
  proof (induction ps)
    case Nil
    show ?case by simp
  next
    case (Cons v vs)
    then have v: "number_or_absent v" and rest: "list_all number_or_absent vs"
      by simp_all
    from v obtain x where "js_add rt (PNum a) v = Inr (PNum x)" "js_add rt' (PNum a) v = Inr (PNum x)"
      by (cases v rule: number_or_absent.cases)
        (simp_all add: js_add_def ToPrimitive_def ToNumber_def)
    with Cons.IH [OF rest, of x] show ?case
      by simp
  qed
  moreover have "\<exists>x. reduce (js_add rt) (PNum (Fin 0)) ps = Inr (PNum x)"
    using reduce_number_or_absent [OF assms(2), of rt "Fin 0"] by blast
  ultimately have "mean rt ps = mean rt' ps"
    by (auto simp: mean_def ToNumber_def)
  then show ?thesis
    using assms(1) by (simp add: calculateStats_array)
qed

subsection \<open>The cache and the debounce timer\<close>

text \<open>Which fields each operation leaves alone, and where the cache can change.\<close>

lemma fold_timeout_fires:
  "fold timeout_fires ds s =
     s\<lparr>in_flight := in_flight s + length ds, recomputes := recomputes s @ ds\<rparr>"
  by (induction ds arbitrary: s) (simp_all add: timeout_fires_def)

lemma advance_eq:
  "advance now s =
     s\<lparr>timers := filter (\<lambda>t. \<not> snd t \<le> now) (timers s),
       in_flight := in_flight s + length (filter (\<lambda>t. snd t \<le> now) (timers s)),
       recomputes :=
         recomputes s @ map snd (sort_key snd (filter (\<lambda>t. snd t \<le> now) (timers s)))\<rparr>"
  by (simp add: advance_def fold_timeout_fires)

lemma advance_fields [simp]:
  "statsCache (advance now s) = statsCache s"
  "debounceTimer (advance now s) = debounceTimer s"
  "next_handle (advance now s) = next_handle s"
  "watching (advance now s) = watching s"
  "console (advance now s) = console s"
  by (simp_all add: advance_eq)

lemma watch_callback_fields [simp]:
  "statsCache (watch_callback now eventType s) = statsCache s"
  "watching (watch_callback now eventType s) = watching s"
  "in_flight (watch_callback now eventType s) = in_flight s"
  "recomputes (watch_callback now eventType s) = recomputes s"
  by (simp_all add: watch_callback_def setTimeout_def clearTimeout_def Let_def)

lemma recompute_settles_fields [simp]:
  "debounceTimer (snd (recompute_settles rt fr s)) = debounceTimer s"
  "timers (snd (recompute_settles rt fr s)) = timers s"
  "next_handle (snd (recompute_settles rt fr s)) = next_handle s"
  "watching (snd (recompute_settles rt fr s)) = watching s"
  "recomputes (snd (recompute_settles rt fr s)) = recomputes s"
  by (simp_all add: recompute_settles_def split: prod.splits sum.splits)

lemma recompute_settles_fulfilled: "fst (recompute_settles rt fr s) = Inr ()"
  by (simp add: recompute_settles_def split: prod.splits sum.splits)

lemma recompute_settles_cache:
  "statsCache (snd (recompute_settles rt fr s)) =
     (case fst (calculateStats rt fr) of Inl e \<Rightarrow> statsCache s | Inr st \<Rightarrow> Some st)"
  by (simp add: recompute_settles_def split: prod.splits sum.splits)

lemma step_cache:
  "statsCache (step rt te s) = statsCache s \<or>
   (\<exists>fr st. snd te = ReadDone fr \<and> fst (calculateStats rt fr) = Inr st \<and>
      statsCache (step rt te s) = Some st)"
  by (cases "snd te")
    (auto simp: step_def Let_def recompute_settles_cache split: sum.splits)

lemma step_no_success:
  "no_success rt te \<Longrightarrow> statsCache (step rt te s) = statsCache s"
  by (cases "snd te")
    (auto simp: step_def Let_def recompute_settles_cache no_success_def fails_def
      split: sum.splits)

lemma run_no_success:
  "list_all (no_success rt) tes \<Longrightarrow> statsCache (run rt tes s) = statsCache s"
  by (induction tes arbitrary: s) (simp_all add: step_no_success)

lemma run_cache:
  "statsCache (run rt tes s) = Some st \<Longrightarrow>
   statsCache s = Some st \<or> (\<exists>fr \<in> set (reads_done tes). fst (calculateStats rt fr) = Inr st)"
proof (induction tes arbitrary: s)
  case Nil
  then show ?case by simp
next
  case (Cons te tes)
  from Cons.prems have "statsCache (run rt tes (step rt te s)) = Some st"
    by simp
  from Cons.IH [OF this] show ?case
  proof
    assume now: "statsCache (step rt te s) = Some st"
    from step_cache [of rt te s] show ?thesis
    proof
      assume "statsCache (step rt te s) = statsCache s"
      with now show ?thesis by simp
    next
      assume "\<exists>fr st. snd te = ReadDone fr \<and> fst (calculateStats rt fr) = Inr st \<and>
        statsCache (step rt te s) = Some st"
      with now show ?thesis by auto
    qed
  next
    assume "\<exists>fr \<in> set (reads_done tes). fst (calculateStats rt fr) = Inr st"
    then show ?thesis
      by (auto split: event.splits)
  qed
qed

lemma initStatsCache_cache:
  "statsCache (snd (initStatsCache rt fr watch_error s)) =
     (case fst (calculateStats rt fr) of Inl e \<Rightarrow> statsCache s | Inr st \<Rightarrow> Some st)"
  by (simp add: initStatsCache_def Let_def split: prod.splits sum.splits option.splits)

lemma initStatsCache_result:
  "fst (initStatsCache rt fr watch_error s) =
     (case fst (calculateStats rt fr) of
        Inl e \<Rightarrow> Inl e
      | Inr st \<Rightarrow> (case watch_error of Some e \<Rightarrow> Inl e | None \<Rightarrow> Inr ()))"
  by (simp add: initStatsCache_def Let_def split: prod.splits sum.splits option.splits)

lemma initStatsCache_fields [simp]:
  "debounceTimer (snd (initStatsCache rt fr watch_error s)) = debounceTimer s"
  "timers (snd (initStatsCache rt fr watch_error s)) = timers s"
  "next_handle (snd (initStatsCache rt fr watch_error s)) = next_handle s"
  "recomputes (snd (initStatsCache rt fr watch_error s)) = recomputes s"
  "in_flight (snd (initStatsCache rt fr watch_error s)) = in_flight s"
  by (simp_all add: initStatsCache_def Let_def split: prod.splits sum.splits option.splits)

lemma initStatsCache_watching:
  "watching (snd (initStatsCache rt fr watch_error s)) =
     (watching s \<or> (\<not> fails rt fr \<and> watch_error = None))"
  by (auto simp: initStatsCache_def Let_def fails_def split: prod.splits sum.splits option.splits)

text \<open>What every successful run of \<^verbatim>\<open>calculateStats\<close> returns.\<close>

lemma calculateStats_not_array:
  assumes "fst (calculateStats rt (Parsed items)) = Inr st" and "\<And>recs. items \<noteq> JArr recs"
  shows "st = \<lparr>total = 0, averagePrice = Fin 0\<rparr>"
  using assms
  by (cases items)
    (auto simp: calc_defs split: if_splits sum.splits bool.splits option.splits json.splits)

lemma calculateStats_shape:
  assumes "fst (calculateStats rt fr) = Inr st"
  shows "total st = record_count fr \<and>
         (total st = 0 \<longrightarrow> averagePrice st = Fin 0) \<and>
         (record_prices fr \<noteq> None \<longrightarrow> Stats_invariant fr st)"
proof (cases fr)
  case ReadFails
  with assms show ?thesis by (simp add: calc_defs)
next
  case NotJson
  with assms show ?thesis by (simp add: calc_defs)
next
  case (Parsed items)
  show ?thesis
  proof (cases "\<exists>recs. items = JArr recs")
    case False
    then have "st = \<lparr>total = 0, averagePrice = Fin 0\<rparr>"
      using assms Parsed calculateStats_not_array by blast
    with False Parsed show ?thesis
      by (cases items) (simp_all add: Stats_invariant_def record_count_def)
  next
    case True
    then obtain recs where recs: "items = JArr recs"
      by blast
    show ?thesis
    proof (cases "recs = []")
      case True
      with assms Parsed recs have "st = \<lparr>total = 0, averagePrice = Fin 0\<rparr>"
        by (simp add: calculateStats_array)
      with True Parsed recs show ?thesis
        by (simp add: Stats_invariant_def record_count_def)
    next
      case False
      with assms Parsed recs obtain prices avg
        where prices: "array_map price_of recs = Inr prices"
          and avg: "mean rt prices = Inr avg"
          and st: "st = \<lparr>total = length recs, averagePrice = avg\<rparr>"
        by (auto simp: calculateStats_array split: sum.splits)
      have "averagePrice st = fdiv (float_sum ps) (number_of_length (total st))"
        if np: "numeric_prices recs = Some ps" for ps
      proof -
        from numeric_prices_array_map [OF np] prices
        have "prices = map (\<lambda>p. Some (JNum p)) ps" and len: "length ps = length recs"
          by simp_all
        with avg have "avg = float_mean ps"
          by (simp add: mean_numbers)
        with st len show ?thesis
          by (simp add: float_mean_def)
      qed
      with False st Parsed recs show ?thesis
        by (auto simp: Stats_invariant_def record_count_def record_prices_def)
    qed
  qed
qed

text \<open>
  Claim C8, as amended. Every Stats value that is in the cache after initialization and
  any events was computed by \<^verbatim>\<open>calculateStats\<close> from the outcome of the initial read or
  of a read that ended since. Its total is the number of records that read delivered
  (zero if it delivered no array), a total of zero comes with an average of zero, and if
  the read delivered a record set with numeric prices the value satisfies the invariant:
  the average is \<open>sum(price) / total\<close> in floating point.
\<close>

theorem cache_holds_computed_stats:
  assumes "statsCache (run rt tes (snd (initStatsCache rt fr0 watch_error initial_state))) = Some st"
  shows "\<exists>fr \<in> set (fr0 # reads_done tes).
           fst (calculateStats rt fr) = Inr st \<and>
           total st = record_count fr \<and>
           (total st = 0 \<longrightarrow> averagePrice st = Fin 0) \<and>
           (record_prices fr \<noteq> None \<longrightarrow> Stats_invariant fr st)"
proof -
  let ?s0 = "snd (initStatsCache rt fr0 watch_error initial_state)"
  from run_cache [OF assms]
  have "\<exists>fr \<in> set (fr0 # reads_done tes). fst (calculateStats rt fr) = Inr st"
  proof
    assume "statsCache ?s0 = Some st"
    then have "fst (calculateStats rt fr0) = Inr st"
      by (simp add: initStatsCache_cache initial_state_def split: sum.splits)
    then show ?thesis by simp
  next
    assume "\<exists>fr \<in> set (reads_done tes). fst (calculateStats rt fr) = Inr st"
    then show ?thesis by auto
  qed
  then show ?thesis
    using calculateStats_shape by blast
qed

lemma calculateStats_item_10:
  "calculateStats rt (Parsed (JArr [item 10])) = (Inr \<lparr>total = 1, averagePrice = Fin 10\<rparr>, [])"
proof -
  have "numeric_prices [item 10] = Some [Fin 10]"
    by (simp add: item_def)
  moreover have "float_mean [Fin 10] = Fin 10"
    by (simp add: float_mean_def float_sum_def fdiv_def number_of_length_def is_zero_def is_inf_def)
  ultimately show ?thesis
    using calculateStats_float_mean [of "[item 10]" "[Fin 10]" rt] by simp
qed

lemma calculateStats_items_10_20_30:
  "calculateStats rt (Parsed (JArr [item 10, item 20, item 30])) =
     (Inr \<lparr>total = 3, averagePrice = Fin 20\<rparr>, [])"
proof -
  have "numeric_prices [item 10, item 20, item 30] = Some [Fin 10, Fin 20, Fin 30]"
    by (simp add: item_def)
  then show ?thesis
    using calculateStats_float_mean [of "[item 10, item 20, item 30]" "[Fin 10, Fin 20, Fin 30]" rt]
    by (simp add: float_mean_10_20_30)
qed

lemma calculateStats_unreadable:
  "calculateStats rt ReadFails = (Inl FsError, [LogError ''Error calculating stats:'' FsError])"
  "calculateStats rt NotJson = (Inl SyntaxError, [LogError ''Error calculating stats:'' SyntaxError])"
  by (simp_all add: calc_defs)

lemma started_eq:
  "started =
     \<lparr>statsCache = Some \<lparr>total = 1, averagePrice = Fin 10\<rparr>, debounceTimer = None,
      timers = [], next_handle = 0, watching = True, in_flight = 0, recomputes = [],
      console = [LogStats ''Stats cache initialized:'' \<lparr>total = 1, averagePrice = Fin 10\<rparr>,
                 Log ''File watcher initialized for:'']\<rparr>"
  by (simp add: started_def initStatsCache_def calculateStats_item_10 initial_state_def)

lemmas loop_defs = step_def advance_eq watch_callback_def setTimeout_def clearTimeout_def
  recompute_settles_def delay_def Let_def notifications_def

theorem cache_holds_computed_stats_witness:
  "statsCache (run some_runtime
      [(0, FsEvent ''change''), (400, ReadDone (Parsed (JArr [item 10, item 20, item 30])))]
      (snd (initStatsCache some_runtime (Parsed (JArr [item 10])) None initial_state))) =
     Some \<lparr>total = 3, averagePrice = Fin 20\<rparr> \<and>
   record_prices (Parsed (JArr [item 10, item 20, item 30])) = Some [Fin 10, Fin 20, Fin 30] \<and>
   Stats_invariant (Parsed (JArr [item 10, item 20, item 30])) \<lparr>total = 3, averagePrice = Fin 20\<rparr>"
proof -
  have h: "statsCache (run some_runtime
      [(0, FsEvent ''change''), (400, ReadDone (Parsed (JArr [item 10, item 20, item 30])))]
      (snd (initStatsCache some_runtime (Parsed (JArr [item 10])) None initial_state))) =
     Some \<lparr>total = 3, averagePrice = Fin 20\<rparr>"
    by (simp add: started_def [symmetric] started_eq loop_defs calculateStats_items_10_20_30)
  have p: "record_prices (Parsed (JArr [item 10, item 20, item 30])) = Some [Fin 10, Fin 20, Fin 30]"
    by (simp add: record_prices_def item_def)
  show ?thesis
    using h p cache_holds_computed_stats [OF h]
    by (simp add: calculateStats_item_10 calculateStats_items_10_20_30)
qed

text \<open>
  A stored value that does not satisfy the invariant: started on a file whose one record
  has no price, the cache holds a total of 1 with the average NaN, and there is no sum
  of prices that this average could be the quotient of.
\<close>

theorem cache_invariant_counterexample:
  "statsCache (snd (initStatsCache some_runtime (Parsed (JArr [JObj [(''name'', JStr ''Desk'')]]))
      None initial_state)) = Some \<lparr>total = 1, averagePrice = NaN\<rparr> \<and>
   record_prices (Parsed (JArr [JObj [(''name'', JStr ''Desk'')]])) = None \<and>
   \<not> Stats_invariant (Parsed (JArr [JObj [(''name'', JStr ''Desk'')]]))
       \<lparr>total = 1, averagePrice = NaN\<rparr>"
proof -
  have "calculateStats some_runtime (Parsed (JArr [JObj [(''name'', JStr ''Desk'')]])) =
      (Inr \<lparr>total = length [JObj [(''name'', JStr ''Desk'')]], averagePrice = NaN\<rparr>, [])"
    by (rule calculateStats_absent_price [of _ "[None]"]) simp_all
  then show ?thesis
    by (simp add: initStatsCache_cache record_prices_def Stats_invariant_def)
qed


text \<open>
  Claim C5. The promise of the timeout callback is always fulfilled, so a failing
  recompute crashes nothing; a failing recompute leaves the cache as it was, and
  \<^verbatim>\<open>getStats\<close> goes on returning that value through all later events for as long as no
  read succeeds.
\<close>

theorem failed_recompute_keeps_cache:
  "fst (recompute_settles rt fr s) = Inr () \<and>
   (fails rt fr \<longrightarrow>
      getStats (snd (recompute_settles rt fr s)) = getStats s \<and>
      (list_all (no_success rt) tes \<longrightarrow>
         getStats (run rt tes (snd (recompute_settles rt fr s))) = getStats s))"
  by (auto simp: recompute_settles_fulfilled getStats_def recompute_settles_cache fails_def
      run_no_success split: sum.splits)

theorem failed_recompute_keeps_cache_witness:
  "in_flight (advance 300 (run some_runtime [(0, FsEvent ''change'')] started)) = 1 \<and>
   fails some_runtime ReadFails \<and>
   list_all (no_success some_runtime)
     [(700, FsEvent ''rename''), (900, FsEvent ''change''), (1300, ReadDone NotJson)] \<and>
   getStats (run some_runtime
     [(700, FsEvent ''rename''), (900, FsEvent ''change''), (1300, ReadDone NotJson)]
     (snd (recompute_settles some_runtime ReadFails
        (advance 300 (run some_runtime [(0, FsEvent ''change'')] started))))) =
     Some \<lparr>total = 1, averagePrice = Fin 10\<rparr>"
proof -
  have a: "fails some_runtime ReadFails"
    by (simp add: fails_def calculateStats_unreadable)
  have b: "list_all (no_success some_runtime)
     [(700, FsEvent ''rename''), (900, FsEvent ''change''), (1300, ReadDone NotJson)]"
    by (simp add: no_success_def fails_def calculateStats_unreadable)
  have c: "in_flight (advance 300 (run some_runtime [(0, FsEvent ''change'')] started)) = 1"
    by (simp add: started_eq loop_defs)
  have d: "getStats (advance 300 (run some_runtime [(0, FsEvent ''change'')] started)) =
      Some \<lparr>total = 1, averagePrice = Fin 10\<rparr>"
    by (simp add: getStats_def started_eq loop_defs)
  show ?thesis
    using a b c d
      failed_recompute_keeps_cache [of some_runtime ReadFails
        "advance 300 (run some_runtime [(0, FsEvent ''change'')] started)"
        "[(700, FsEvent ''rename''), (900, FsEvent ''change''), (1300, ReadDone NotJson)]"]
    by simp
qed

text \<open>
  Claim C6. \<^verbatim>\<open>initStatsCache\<close> runs \<^verbatim>\<open>calculateStats\<close> at once, without a timeout, and
  stores the result in the cache. If that run fails, \<^verbatim>\<open>initStatsCache\<close> fails with the
  same error, the cache keeps its value and no watcher is installed; started from the
  initial state, reads are then answered with status 503.
\<close>

theorem initStatsCache_outcome:
  "(fst (calculateStats rt fr) = Inr st \<longrightarrow>
      getStats (snd (initStatsCache rt fr watch_error s)) = Some st \<and>
      debounceTimer (snd (initStatsCache rt fr watch_error s)) = debounceTimer s \<and>
      timers (snd (initStatsCache rt fr watch_error s)) = timers s \<and>
      recomputes (snd (initStatsCache rt fr watch_error s)) = recomputes s) \<and>
   (fst (calculateStats rt fr') = Inl err \<longrightarrow>
      fst (initStatsCache rt fr' watch_error s) = Inl err \<and>
      getStats (snd (initStatsCache rt fr' watch_error s)) = getStats s \<and>
      watching (snd (initStatsCache rt fr' watch_error s)) = watching s \<and>
      stats_route (snd (initStatsCache rt fr' watch_error initial_state)) =
        Next \<lparr>message = ''Stats not initialized'', status = 503\<rparr>)"
  by (simp add: getStats_def initStatsCache_cache initStatsCache_result initStatsCache_watching
      fails_def stats_route_def initial_state_def)

theorem initStatsCache_outcome_witness:
  "fst (calculateStats some_runtime (Parsed (JArr [item 10]))) =
     Inr \<lparr>total = 1, averagePrice = Fin 10\<rparr> \<and>
   getStats (snd (initStatsCache some_runtime (Parsed (JArr [item 10])) None initial_state)) =
     Some \<lparr>total = 1, averagePrice = Fin 10\<rparr> \<and>
   fst (calculateStats some_runtime NotJson) = Inl SyntaxError \<and>
   fst (initStatsCache some_runtime NotJson None initial_state) = Inl SyntaxError \<and>
   getStats (snd (initStatsCache some_runtime NotJson None initial_state)) = None"
proof -
  have a: "fst (calculateStats some_runtime (Parsed (JArr [item 10]))) =
      Inr \<lparr>total = 1, averagePrice = Fin 10\<rparr>"
    by (simp add: calculateStats_item_10)
  have b: "fst (calculateStats some_runtime NotJson) = Inl SyntaxError"
    by (simp add: calculateStats_unreadable)
  have c: "getStats initial_state = None"
    by (simp add: getStats_def initial_state_def)
  show ?thesis
    using a b c
      initStatsCache_outcome [of some_runtime "Parsed (JArr [item 10])"
        "\<lparr>total = 1, averagePrice = Fin 10\<rparr>" None initial_state NotJson SyntaxError]
    by simp
qed

text \<open>
  Claim C7. The cache starts empty, and as long as it has not been populated, whatever
  events happen without a successful read, \<^verbatim>\<open>getStats\<close> returns \<^verbatim>\<open>null\<close> and the route
  passes an error with status 503 to \<^verbatim>\<open>next\<close>; it does not answer with zero-valued
  stats.
\<close>

theorem stats_route_not_ready:
  "getStats initial_state = None \<and>
   (getStats s = None \<and> list_all (no_success rt) tes \<longrightarrow>
      getStats (run rt tes s) = None \<and>
      stats_route (run rt tes s) = Next \<lparr>message = ''Stats not initialized'', status = 503\<rparr> \<and>
      stats_route (run rt tes s) \<noteq> Json \<lparr>total = 0, averagePrice = Fin 0\<rparr>)"
  by (simp add: getStats_def initial_state_def stats_route_def run_no_success)

theorem stats_route_not_ready_witness:
  "getStats initial_state = None \<and>
   list_all (no_success some_runtime) [(5, FsEvent ''change''), (400, ReadDone NotJson)] \<and>
   stats_route (run some_runtime [(5, FsEvent ''change''), (400, ReadDone NotJson)] initial_state) =
     Next \<lparr>message = ''Stats not initialized'', status = 503\<rparr>"
proof -
  have a: "list_all (no_success some_runtime) [(5, FsEvent ''change''), (400, ReadDone NotJson)]"
    by (simp add: no_success_def fails_def calculateStats_unreadable)
  show ?thesis
    using a stats_route_not_ready [of initial_state some_runtime
        "[(5, FsEvent ''change''), (400, ReadDone NotJson)]"]
    by simp
qed

text \<open>Time and the timers.\<close>

lemma advance_not_due: "not_due now s \<Longrightarrow> advance now s = s"
proof -
  assume "not_due now s"
  then have all: "\<forall>t \<in> set (timers s). \<not> snd t \<le> now"
    by (auto simp: not_due_def list_all_iff)
  then have "filter (\<lambda>t. snd t \<le> now) (timers s) = []"
    and "filter (\<lambda>t. \<not> snd t \<le> now) (timers s) = timers s"
    by (simp_all add: filter_empty_conv filter_id_conv)
  then show ?thesis
    by (simp add: advance_eq)
qed

lemma advance_idle: "timers s = [] \<Longrightarrow> advance now s = s"
  by (simp add: advance_not_due not_due_def)

lemma step_not_change_quiet:
  assumes "not_change te" and "not_due (fst te) s"
  shows "timers (step rt te s) = timers s \<and> debounceTimer (step rt te s) = debounceTimer s \<and>
         watching (step rt te s) = watching s \<and> recomputes (step rt te s) = recomputes s"
  using assms
  by (cases "snd te")
    (simp_all add: step_def Let_def advance_not_due not_change_def watch_callback_def)

lemma step_not_change_fire:
  assumes "not_change te" and "timers s = [(h, d)]" and "d \<le> fst te"
  shows "timers (step rt te s) = [] \<and> debounceTimer (step rt te s) = debounceTimer s \<and>
         watching (step rt te s) = watching s \<and> recomputes (step rt te s) = recomputes s @ [d]"
  using assms
  by (cases "snd te")
    (simp_all add: step_def Let_def advance_eq not_change_def watch_callback_def)

lemma watch_callback_change:
  assumes "owned s"
  shows "watch_callback now ''change'' s =
           s\<lparr>timers := [(next_handle s, now + delay)], next_handle := Suc (next_handle s),
             debounceTimer := Some (next_handle s)\<rparr>"
proof -
  from assms have "\<forall>t \<in> set (timers s). \<not> Some (fst t) \<noteq> debounceTimer s"
    by (auto simp: owned_def list_all_iff)
  then have "filter (\<lambda>t. Some (fst t) \<noteq> debounceTimer s) (timers s) = []"
    by (simp add: filter_empty_conv)
  then show ?thesis
    by (simp add: watch_callback_def clearTimeout_def setTimeout_def Let_def)
qed

lemma step_change:
  assumes "watching s" and "not_due t s" and "owned s"
  shows "step rt (t, FsEvent ''change'') s =
           s\<lparr>timers := [(next_handle s, t + delay)], next_handle := Suc (next_handle s),
             debounceTimer := Some (next_handle s)\<rparr>"
  using assms by (simp add: step_def Let_def advance_not_due watch_callback_change)

lemma run_idle:
  "list_all not_change tes \<Longrightarrow> timers s = [] \<Longrightarrow>
   timers (run rt tes s) = [] \<and> debounceTimer (run rt tes s) = debounceTimer s \<and>
   recomputes (run rt tes s) = recomputes s"
proof (induction tes arbitrary: s)
  case Nil
  then show ?case by simp
next
  case (Cons te tes)
  then have te: "not_change te" and rest: "list_all not_change tes"
    by simp_all
  have "not_due (fst te) s"
    using Cons.prems(2) by (simp add: not_due_def)
  from step_not_change_quiet [OF te this, of rt] Cons.prems(2)
  have idle: "timers (step rt te s) = []"
    and same: "debounceTimer (step rt te s) = debounceTimer s"
      "recomputes (step rt te s) = recomputes s"
    by simp_all
  from Cons.IH [OF rest idle] same show ?case
    by simp
qed

text \<open>
  Claim C10. The listener does nothing for an event type other than \<^verbatim>\<open>change\<close>. From
  a state with no timeout armed, events other than \<^verbatim>\<open>change\<close> notifications arm none,
  leave \<open>debounceTimer\<close> as it is and cause no call of \<^verbatim>\<open>calculateStats\<close>.
\<close>

theorem rename_schedules_nothing:
  "(eventType \<noteq> ''change'' \<longrightarrow> watch_callback now eventType s = s) \<and>
   (timers s = [] \<and> list_all not_change tes \<longrightarrow>
      timers (run rt tes s) = [] \<and> debounceTimer (run rt tes s) = debounceTimer s \<and>
      recomputes (run rt tes s) = recomputes s)"
  using run_idle [of tes s rt] by (simp add: watch_callback_def)

theorem rename_schedules_nothing_witness:
  "''rename'' \<noteq> ''change'' \<and>
   watch_callback 10 ''rename'' started = started \<and>
   timers started = [] \<and>
   list_all not_change [(10, FsEvent ''rename''), (20, FsEvent ''rename'')] \<and>
   timers (run some_runtime [(10, FsEvent ''rename''), (20, FsEvent ''rename'')] started) = [] \<and>
   recomputes (run some_runtime [(10, FsEvent ''rename''), (20, FsEvent ''rename'')] started) = []"
proof -
  have a: "timers started = []" and b: "recomputes started = []"
    by (simp_all add: started_eq)
  have c: "list_all not_change [(10, FsEvent ''rename''), (20, FsEvent ''rename'')]"
    by (simp add: not_change_def)
  show ?thesis
    using a b c
      rename_schedules_nothing [of "''rename''" 10 started
        "[(10, FsEvent ''rename''), (20, FsEvent ''rename'')]" some_runtime]
    by simp
qed


text \<open>In every state that the events lead to from the initial one, the armed timeouts
  are at most the one that \<open>debounceTimer\<close> names.\<close>

lemma owned_step: "owned s \<Longrightarrow> owned (step rt te s)"
proof -
  assume own: "owned s"
  have adv: "owned (advance (fst te) s)"
    using own by (auto simp: owned_def advance_eq list_all_iff)
  show ?thesis
  proof (cases "snd te")
    case (FsEvent eventType)
    show ?thesis
    proof (cases "eventType = ''change''")
      case True
      with FsEvent adv show ?thesis
        by (simp add: step_def Let_def watch_callback_change) (simp add: owned_def)
    next
      case False
      with FsEvent adv show ?thesis
        by (simp add: step_def Let_def watch_callback_def)
    qed
  next
    case (ReadDone fr)
    with adv show ?thesis
      by (simp add: step_def Let_def owned_def)
  qed
qed

lemma owned_run: "owned s \<Longrightarrow> owned (run rt tes s)"
  by (induction tes arbitrary: s) (simp_all add: owned_step)

lemma owned_initially:
  "owned (run rt tes (snd (initStatsCache rt fr watch_error initial_state)))"
  by (rule owned_run) (simp add: owned_def initial_state_def)

text \<open>Bursts.\<close>

lemma change_times_Cons:
  "change_times (te # tes) =
     (if not_change te then change_times tes else fst te # change_times tes)"
  by (simp add: change_times_def)

lemma change_event: "\<not> not_change te \<Longrightarrow> te = (fst te, FsEvent ''change'')"
  by (cases te; cases "snd te") (simp_all add: not_change_def)

lemma change_times_subset: "set (change_times tes) \<subseteq> set (map fst tes)"
  by (auto simp: change_times_def)

lemma change_times_Nil: "change_times tes = [] \<Longrightarrow> list_all not_change tes"
  by (induction tes) (simp_all add: change_times_Cons split: if_splits)

lemma advance_armed:
  assumes "timers s = [(h, d)]"
  shows "recomputes (advance horizon s) = recomputes s @ (if d \<le> horizon then [d] else [])"
  using assms by (simp add: advance_eq)

lemma run_armed:
  assumes "watching s" and "timers s = [(h, c + delay)]" and "debounceTimer s = Some h"
    and "sorted (c # map fst tes)" and "burst (c # change_times tes)"
    and "list_all (\<lambda>t. t \<le> horizon) (c # map fst tes)"
  shows "recomputes (advance horizon (run rt tes s)) =
           recomputes s @
           (if last (c # change_times tes) + delay \<le> horizon
            then [last (c # change_times tes) + delay] else [])"
  using assms
proof (induction tes arbitrary: s h c)
  case Nil
  then show ?case
    by (simp add: advance_armed change_times_def)
next
  case (Cons te tes)
  let ?u = "fst te"
  from Cons.prems(4) have cu: "c \<le> ?u" and sorted_u: "sorted (?u # map fst tes)"
    and sorted_c: "sorted (c # map fst tes)"
    by auto
  from Cons.prems(6) have hor_u: "list_all (\<lambda>t. t \<le> horizon) (?u # map fst tes)"
    and hor_c: "list_all (\<lambda>t. t \<le> horizon) (c # map fst tes)" and u_hor: "?u \<le> horizon"
    by simp_all
  have own: "owned s"
    using Cons.prems(2,3) by (simp add: owned_def)
  show ?case
  proof (cases "not_change te")
    case False
    then have te: "te = (?u, FsEvent ''change'')"
      by (rule change_event)
    from False Cons.prems(5) have gap: "?u < c + delay" and rest: "burst (?u # change_times tes)"
      by (simp_all add: change_times_Cons)
    have quiet: "not_due ?u s"
      using Cons.prems(2) gap by (simp add: not_due_def)
    let ?s1 = "s\<lparr>timers := [(next_handle s, ?u + delay)], next_handle := Suc (next_handle s),
      debounceTimer := Some (next_handle s)\<rparr>"
    have step: "step rt te s = ?s1"
      using step_change [OF Cons.prems(1) quiet own, of rt] te by simp
    have "recomputes (advance horizon (run rt tes ?s1)) =
        recomputes ?s1 @
        (if last (?u # change_times tes) + delay \<le> horizon
         then [last (?u # change_times tes) + delay] else [])"
      by (rule Cons.IH [of ?s1 "next_handle s" ?u])
        (use Cons.prems(1) sorted_u rest hor_u in simp_all)
    with step False show ?thesis
      by (simp add: change_times_Cons)
  next
    case True
    then have ct: "change_times (te # tes) = change_times tes"
      by (simp add: change_times_Cons)
    show ?thesis
    proof (cases "?u < c + delay")
      case quiet_case: True
      then have quiet: "not_due ?u s"
        using Cons.prems(2) by (simp add: not_due_def)
      from step_not_change_quiet [OF True quiet, of rt]
      have s1: "timers (step rt te s) = [(h, c + delay)]"
        "debounceTimer (step rt te s) = Some h" "watching (step rt te s)"
        "recomputes (step rt te s) = recomputes s"
        using Cons.prems(1,2,3) by simp_all
      have "recomputes (advance horizon (run rt tes (step rt te s))) =
          recomputes (step rt te s) @
          (if last (c # change_times tes) + delay \<le> horizon
           then [last (c # change_times tes) + delay] else [])"
        by (rule Cons.IH [OF s1(3) s1(1) s1(2) sorted_c _ hor_c])
          (use Cons.prems(5) ct in simp)
      with s1(4) ct show ?thesis
        by simp
    next
      case fired_case: False
      then have due: "c + delay \<le> ?u"
        by simp
      have none: "change_times tes = []"
      proof (rule ccontr)
        assume "change_times tes \<noteq> []"
        then obtain t ts where ts: "change_times tes = t # ts"
          by (cases "change_times tes") simp_all
        with Cons.prems(5) ct have "t < c + delay"
          by simp
        moreover have "t \<in> set (map fst tes)"
          using change_times_subset [of tes] ts by auto
        with sorted_u have "?u \<le> t"
          by auto
        ultimately show False
          using due by simp
      qed
      then have calm: "list_all not_change tes"
        by (rule change_times_Nil)
      from step_not_change_fire [OF True Cons.prems(2) due, of rt]
      have s1: "timers (step rt te s) = []"
        "recomputes (step rt te s) = recomputes s @ [c + delay]"
        by simp_all
      from run_idle [OF calm s1(1), of rt]
      have "timers (run rt tes (step rt te s)) = []"
        and "recomputes (run rt tes (step rt te s)) = recomputes s @ [c + delay]"
        using s1(2) by simp_all
      then have "recomputes (advance horizon (run rt (te # tes) s)) = recomputes s @ [c + delay]"
        by (simp add: advance_idle)
      moreover have "c + delay \<le> horizon"
        using due u_hor by simp
      ultimately show ?thesis
        using ct none by simp
    qed
  qed
qed

lemma run_burst:
  assumes "watching s" and "owned s" and "sorted (map fst tes)"
    and "change_times tes \<noteq> []" and "burst (change_times tes)"
    and "not_due (hd (change_times tes)) s"
    and "list_all (\<lambda>t. t \<le> horizon) (map fst tes)"
  shows "recomputes (advance horizon (run rt tes s)) =
           recomputes s @
           (if last (change_times tes) + delay \<le> horizon
            then [last (change_times tes) + delay] else [])"
  using assms
proof (induction tes arbitrary: s)
  case Nil
  then show ?case
    by (simp add: change_times_def)
next
  case (Cons te tes)
  let ?u = "fst te"
  from Cons.prems(3) have sorted_u: "sorted (?u # map fst tes)" and sorted_rest: "sorted (map fst tes)"
    by simp_all
  from Cons.prems(7) have hor_u: "list_all (\<lambda>t. t \<le> horizon) (?u # map fst tes)"
    and hor_rest: "list_all (\<lambda>t. t \<le> horizon) (map fst tes)"
    by simp_all
  show ?case
  proof (cases "not_change te")
    case False
    then have te: "te = (?u, FsEvent ''change'')"
      by (rule change_event)
    from False have ct: "change_times (te # tes) = ?u # change_times tes"
      by (simp add: change_times_Cons)
    from Cons.prems(6) ct have quiet: "not_due ?u s"
      by simp
    let ?s1 = "s\<lparr>timers := [(next_handle s, ?u + delay)], next_handle := Suc (next_handle s),
      debounceTimer := Some (next_handle s)\<rparr>"
    have step: "step rt te s = ?s1"
      using step_change [OF Cons.prems(1) quiet Cons.prems(2), of rt] te by simp
    have "recomputes (advance horizon (run rt tes ?s1)) =
        recomputes ?s1 @
        (if last (?u # change_times tes) + delay \<le> horizon
         then [last (?u # change_times tes) + delay] else [])"
      by (rule run_armed [of ?s1 "next_handle s" ?u])
        (use Cons.prems(1,5) ct sorted_u hor_u in simp_all)
    with step ct show ?thesis
      by simp
  next
    case True
    then have ct: "change_times (te # tes) = change_times tes"
      by (simp add: change_times_Cons)
    with Cons.prems(4) have ne: "change_times tes \<noteq> []"
      by simp
    then have "hd (change_times tes) \<in> set (map fst tes)"
      using change_times_subset [of tes] hd_in_set by blast
    with sorted_u have le: "?u \<le> hd (change_times tes)"
      by auto
    from Cons.prems(6) ct have later: "not_due (hd (change_times tes)) s"
      by simp
    then have quiet: "not_due ?u s"
      using le by (auto simp: not_due_def list_all_iff)
    from step_not_change_quiet [OF True quiet, of rt]
    have same: "timers (step rt te s) = timers s"
      "debounceTimer (step rt te s) = debounceTimer s" "watching (step rt te s) = watching s"
      "recomputes (step rt te s) = recomputes s"
      by simp_all
    have "recomputes (advance horizon (run rt tes (step rt te s))) =
        recomputes (step rt te s) @
        (if last (change_times tes) + delay \<le> horizon
         then [last (change_times tes) + delay] else [])"
    proof (rule Cons.IH [OF _ _ sorted_rest ne _ _ hor_rest])
      show "watching (step rt te s)"
        using same(3) Cons.prems(1) by simp
      show "owned (step rt te s)"
        using same(1,2) Cons.prems(2) by (simp add: owned_def)
      show "burst (change_times tes)"
        using Cons.prems(5) ct by simp
      show "not_due (hd (change_times tes)) (step rt te s)"
        using same(1) later by (simp add: not_due_def)
    qed
    with same(4) ct show ?thesis
      by simp
  qed
qed

text \<open>
  Claim C4, as amended. Take events in the order of their times, among them at least one
  \<^verbatim>\<open>change\<close> notification, each \<^verbatim>\<open>change\<close> less than the delay after the \<^verbatim>\<open>change\<close>
  before it; start where the watcher is installed, every armed timeout is the one that
  \<open>debounceTimer\<close> names (as in every state the events lead to after initialization, by
  \<open>owned_initially\<close>), and none is due by the first \<^verbatim>\<open>change\<close>. Then up to any time
  after the events exactly one call of \<^verbatim>\<open>calculateStats\<close> has been made, at the delay
  after the last \<^verbatim>\<open>change\<close> and not earlier; events of other kinds neither count nor
  move the deadline. A \<^verbatim>\<open>change\<close> notification disarms the armed timeout and leaves
  one timeout armed, due the delay after it.
\<close>

theorem burst_one_recompute:
  assumes "watching s" and "owned s" and "sorted (map fst tes)"
    and "change_times tes \<noteq> []" and "burst (change_times tes)"
    and "not_due (hd (change_times tes)) s"
    and "list_all (\<lambda>t. t \<le> horizon) (map fst tes)"
  shows "recomputes (advance horizon (run rt tes s)) =
           recomputes s @
           (if last (change_times tes) + delay \<le> horizon
            then [last (change_times tes) + delay] else []) \<and>
         timers (watch_callback now ''change'' s) = [(next_handle s, now + delay)] \<and>
         debounceTimer (watch_callback now ''change'' s) = Some (next_handle s)"
  using run_burst [OF assms] watch_callback_change [OF assms(2), of now] by simp


lemma armed_eq:
  "run some_runtime (notifications [(0, ''change'')]) started =
     \<lparr>statsCache = Some \<lparr>total = 1, averagePrice = Fin 10\<rparr>, debounceTimer = Some 0,
      timers = [(0, 300)], next_handle = 1, watching = True, in_flight = 0, recomputes = [],
      console = [LogStats ''Stats cache initialized:'' \<lparr>total = 1, averagePrice = Fin 10\<rparr>,
                 Log ''File watcher initialized for:'']\<rparr>"
  by (simp add: started_eq loop_defs)

text \<open>
  A timeout is armed, due at 300. Four \<^verbatim>\<open>change\<close> notifications follow, 50 apart up to
  time 200, with a \<^verbatim>\<open>rename\<close> among them: one call, at 500.
\<close>

theorem burst_one_recompute_witness:
  "watching (run some_runtime (notifications [(0, ''change'')]) started) \<and>
   owned (run some_runtime (notifications [(0, ''change'')]) started) \<and>
   timers (run some_runtime (notifications [(0, ''change'')]) started) = [(0, 300)] \<and>
   sorted (map fst (notifications
     [(50, ''change''), (60, ''rename''), (100, ''change''), (150, ''change''), (200, ''change'')])) \<and>
   change_times (notifications
     [(50, ''change''), (60, ''rename''), (100, ''change''), (150, ''change''), (200, ''change'')]) =
     [50, 100, 150, 200] \<and>
   burst [50, 100, 150, 200] \<and>
   not_due 50 (run some_runtime (notifications [(0, ''change'')]) started) \<and>
   recomputes (advance 2000 (run some_runtime (notifications
     [(50, ''change''), (60, ''rename''), (100, ''change''), (150, ''change''), (200, ''change'')])
     (run some_runtime (notifications [(0, ''change'')]) started))) = [500] \<and>
   recomputes (advance 499 (run some_runtime (notifications
     [(50, ''change''), (60, ''rename''), (100, ''change''), (150, ''change''), (200, ''change'')])
     (run some_runtime (notifications [(0, ''change'')]) started))) = [] \<and>
   timers (watch_callback 50 ''change'' (run some_runtime (notifications [(0, ''change'')]) started)) =
     [(1, 350)]"
proof -
  let ?s = "run some_runtime (notifications [(0, ''change'')]) started"
  let ?tes = "notifications
     [(50, ''change''), (60, ''rename''), (100, ''change''), (150, ''change''), (200, ''change'')]"
  have a: "watching ?s" and b: "owned ?s" and t: "timers ?s = [(0, 300)]"
    and r: "recomputes ?s = []" and n: "next_handle ?s = 1"
    by (simp_all add: armed_eq owned_def)
  have c: "sorted (map fst ?tes)"
    by (simp add: notifications_def)
  have ct: "change_times ?tes = [50, 100, 150, 200]"
    by (simp add: notifications_def change_times_def not_change_def)
  have d: "change_times ?tes \<noteq> []" and e: "burst (change_times ?tes)"
    by (simp_all add: ct delay_def)
  have f: "not_due (hd (change_times ?tes)) ?s"
    by (simp add: ct not_due_def t)
  have g: "list_all (\<lambda>t. t \<le> 2000) (map fst ?tes)" and g': "list_all (\<lambda>t. t \<le> 499) (map fst ?tes)"
    by (simp_all add: notifications_def)
  show ?thesis
    using a b t c ct e f r n
      burst_one_recompute [OF a b c d e f g, of some_runtime 50]
      burst_one_recompute [OF a b c d e f g', of some_runtime 50]
    by (simp add: delay_def)
qed

text \<open>
  Notifications less than the delay apart need not give one call at the delay after the
  last of them. Three \<^verbatim>\<open>rename\<close> notifications give none; a \<^verbatim>\<open>change\<close> at 0 and a
  \<^verbatim>\<open>rename\<close> at 250 give one at 300, not at 550; a \<^verbatim>\<open>change\<close> at 0, a \<^verbatim>\<open>rename\<close> at
  250 and a \<^verbatim>\<open>change\<close> at 500 give two.
\<close>

theorem burst_of_notifications_counterexample:
  "burst [0, 50, 100] \<and>
   recomputes (advance 2000 (run some_runtime
     (notifications [(0, ''rename''), (50, ''rename''), (100, ''rename'')]) started)) = [] \<and>
   burst [0, 250] \<and>
   recomputes (advance 2000 (run some_runtime
     (notifications [(0, ''change''), (250, ''rename'')]) started)) = [300] \<and>
   burst [0, 250, 500] \<and>
   recomputes (advance 2000 (run some_runtime
     (notifications [(0, ''change''), (250, ''rename''), (500, ''change'')]) started)) = [300, 800]"
  by (simp add: started_eq loop_defs)

end
